theory Spec2Isabelle
  imports Complex_Main "HOL-Library.Char_ord" "HOL-Library.Sublist"
begin

section \<open>The scraper of \<^verbatim>\<open>src/scraper.py\<close>\<close>

text \<open>
  The class \<^verbatim>\<open>AIScraper\<close> is embedded method by method. Python strings are
  lists of characters (\<^typ>\<open>string\<close>); the only characters the program inspects are ASCII
  ones (the classes of the email pattern, the separators of a path), every other
  character is only copied or counted.
\<close>

subsection \<open>The email pattern and \<^verbatim>\<open>re.findall\<close>\<close>

text \<open>
  \<^verbatim>\<open>email_pattern = r'[a-zA-Z0-9._%+-]+@[a-zA-Z0-9.-]+\.[a-zA-Z]{2,}'\<close>

  The pattern is a sequence of literal characters and of greedy repetitions of a
  character class with a lower bound (\<^verbatim>\<open>+\<close> is \<^verbatim>\<open>{1,}\<close>).
\<close>

definition in_range :: "char \<Rightarrow> char \<Rightarrow> char \<Rightarrow> bool" where
  "in_range lo hi c \<longleftrightarrow> lo \<le> c \<and> c \<le> hi"

definition alnum_char :: "char \<Rightarrow> bool" where
  "alnum_char c \<longleftrightarrow>
     in_range CHR ''a'' CHR ''z'' c \<or> in_range CHR ''A'' CHR ''Z'' c \<or> in_range CHR ''0'' CHR ''9'' c"

definition local_char :: "char \<Rightarrow> bool" where
  "local_char c \<longleftrightarrow> alnum_char c \<or> c \<in> set ''._%+-''"

definition domain_char :: "char \<Rightarrow> bool" where
  "domain_char c \<longleftrightarrow> alnum_char c \<or> c \<in> set ''.-''"

definition alpha_char :: "char \<Rightarrow> bool" where
  "alpha_char c \<longleftrightarrow> in_range CHR ''a'' CHR ''z'' c \<or> in_range CHR ''A'' CHR ''Z'' c"

datatype item = Lit char | Rep "char \<Rightarrow> bool" nat

definition email_pattern :: "item list" where
  "email_pattern =
     [Rep local_char 1, Lit CHR ''@'', Rep domain_char 1, Lit CHR ''.'', Rep alpha_char 2]"

text \<open>
  The backtracking matcher of the \<^verbatim>\<open>re\<close> module, anchored at the start of \<open>s\<close>: a
  greedy repetition first takes the longest run of the class and gives characters back
  one at a time, down to its lower bound, until the rest of the pattern matches. The
  result is the text left after the match that is found first.
\<close>

fun first_some :: "'a option list \<Rightarrow> 'a option" where
  "first_some [] = None"
| "first_some (None # xs) = first_some xs"
| "first_some (Some x # xs) = Some x"

fun match_here :: "item list \<Rightarrow> string \<Rightarrow> string option" where
  "match_here [] s = Some s"
| "match_here (Lit c # r) s =
     (case s of [] \<Rightarrow> None | x # xs \<Rightarrow> if x = c then match_here r xs else None)"
| "match_here (Rep p n # r) s =
     first_some (map (\<lambda>k. match_here r (drop k s)) (rev [n ..< Suc (length (takeWhile p s))]))"

text \<open>
  \<^verbatim>\<open>re.findall(pattern, text)\<close> scans from left to right: at each position it tries the
  pattern, reports the matched text and goes on behind it, or moves one character on
  when nothing matches there. The last branch is the one of an empty match, which
  the email pattern never produces (\<open>match_here_email_shorter\<close> below).
\<close>

function findall :: "item list \<Rightarrow> string \<Rightarrow> string list" where
  "findall pat [] = []"
| "findall pat (c # cs) =
     (case match_here pat (c # cs) of
        None \<Rightarrow> findall pat cs
      | Some rest \<Rightarrow>
          if length rest < length (c # cs)
          then take (length (c # cs) - length rest) (c # cs) # findall pat rest
          else findall pat cs)"
  by pat_completeness auto
termination
  by (relation "measure (\<lambda>(pat, s). length s)") auto

text \<open>
  \<^verbatim>\<open>return list(set(re.findall(email_pattern, text)))\<close>

  A Python set keeps one copy of each element and is iterated in an order that the
  program does not control (it follows the hashes of the strings, which change from
  one process to the next). The order is a parameter: \<open>rank\<close> ranks the strings, and
  every order of the distinct matches is the one of some ranking.
\<close>

definition list_of_set :: "('a \<Rightarrow> nat) \<Rightarrow> 'a list \<Rightarrow> 'a list" where
  "list_of_set rank xs = sort_key rank (remdups xs)"

definition extract_emails :: "(string \<Rightarrow> nat) \<Rightarrow> string \<Rightarrow> string list" where
  "extract_emails rank text = list_of_set rank (findall email_pattern text)"

text \<open>
  What it means for a whole string to match a pattern, stated without any search
  order: the language of the pattern.
\<close>

fun matches :: "item list \<Rightarrow> string \<Rightarrow> bool" where
  "matches [] e \<longleftrightarrow> e = []"
| "matches (Lit c # r) e \<longleftrightarrow> (case e of [] \<Rightarrow> False | x # xs \<Rightarrow> x = c \<and> matches r xs)"
| "matches (Rep p n # r) e \<longleftrightarrow>
     (\<exists>k \<in> set [n ..< Suc (length e)]. list_all p (take k e) \<and> matches r (drop k e))"

definition is_email :: "string \<Rightarrow> bool" where
  "is_email e \<longleftrightarrow> matches email_pattern e"

subsection \<open>The outside world\<close>

text \<open>
  The program talks to the search API and to the target pages through
  \<^verbatim>\<open>requests.get\<close>, to the language model through the OpenAI client, to the clock
  through \<^verbatim>\<open>time.time\<close> and \<^verbatim>\<open>time.sleep\<close>, and to the file system through
  \<^verbatim>\<open>os.makedirs\<close> and \<^verbatim>\<open>DataFrame.to_csv\<close>. None of these is code of the repository:
  they are the fields of an environment \<open>env\<close> that acts on a world of any type \<open>'w\<close>.
  Every call the program makes is performed on the world and recorded, with what came
  back, on a trace; printing is recorded as well.
\<close>

datatype pyerr =
    ValueError string | ZeroDivisionError string | OverflowError string | OSError string

datatype param = PStr string | PInt int

record request =
  req_url :: string
  req_params :: "(string \<times> param) list"
  req_headers :: "(string \<times> string) list"
  req_timeout :: int

text \<open>
  A response: its status code, the message of the \<^verbatim>\<open>HTTPError\<close> that
  \<^verbatim>\<open>raise_for_status\<close> builds for an error status, \<^verbatim>\<open>response.text\<close>, and what
  \<^verbatim>\<open>response.json()\<close> gives: an exception message, or the search results, whose
  \<^verbatim>\<open>'items'\<close> key may be missing and whose items may lack the \<^verbatim>\<open>'link'\<close> key.
\<close>

record response =
  status_code :: nat
  status_msg :: string
  body_text :: string
  body_json :: "string + string option list option"

record message =
  role :: string
  content :: string

text \<open>The dictionaries that \<^verbatim>\<open>analyze_with_ai\<close> and \<^verbatim>\<open>scrape_website\<close> return.\<close>

datatype analysis = AiOk "string option" | AiError string

datatype result = Failure string | Success string "string list" "string option"

datatype event =
    Printed string
  | Slept rat "string option"
  | HttpGet request "string + response"
  | ChatCreate string "message list" "string + string option"
  | MakeDirs string "string option"
  | ToCsv string "result list" "string option"

record 'w env =
  getenv :: "string \<Rightarrow> string option"
  time_time :: "'w \<Rightarrow> rat"
  time_sleep :: "rat \<Rightarrow> 'w \<Rightarrow> string option \<times> 'w"
  requests_get :: "request \<Rightarrow> 'w \<Rightarrow> (string + response) \<times> 'w"
  user_agent_random :: "'w \<Rightarrow> string \<times> 'w"
  chat_completions_create :: "string \<Rightarrow> message list \<Rightarrow> 'w \<Rightarrow> (string + string option) \<times> 'w"
  soup_get_text :: "string \<Rightarrow> string"
  set_order :: "string \<Rightarrow> nat"
  os_makedirs :: "string \<Rightarrow> 'w \<Rightarrow> string option \<times> 'w"
  to_csv :: "string \<Rightarrow> result list \<Rightarrow> 'w \<Rightarrow> string option \<times> 'w"

text \<open>
  The fields of \<^verbatim>\<open>self\<close> that the methods read. \<^verbatim>\<open>rate_limit\<close> and the clock are
  Python floats; they are taken as rationals with exact arithmetic, so the embedding has
  no rounding, no infinity and no NaN. \<^verbatim>\<open>time.sleep\<close> is a call of the environment like
  the others and may raise: it raises \<^verbatim>\<open>OverflowError\<close> for a duration beyond what the
  platform's clock holds, which a very small rate limit asks for.
  \<^verbatim>\<open>self.user_agent.random\<close> and the HTML parser are taken to return; \<^verbatim>\<open>tqdm\<close> only
  draws a progress bar and is left out.
\<close>

record scraper =
  rate_limit :: rat
  timeout :: int
  last_request_time :: rat
  google_api_key :: "string option"
  search_engine_id :: "string option"

record 'w state =
  self :: scraper
  world :: 'w
  trace :: "event list"

definition emit :: "event \<Rightarrow> 'w state \<Rightarrow> 'w state" where
  "emit ev st = st\<lparr>trace := trace st @ [ev]\<rparr>"

definition py_print :: "string \<Rightarrow> 'w state \<Rightarrow> 'w state" where
  "py_print s st = emit (Printed s) st"

definition do_sleep :: "'w env \<Rightarrow> rat \<Rightarrow> 'w state \<Rightarrow> string option \<times> 'w state" where
  "do_sleep env d st =
     (case time_sleep env d (world st) of
        (res, w) \<Rightarrow> (res, emit (Slept d res) (st\<lparr>world := w\<rparr>)))"

definition do_get :: "'w env \<Rightarrow> request \<Rightarrow> 'w state \<Rightarrow> (string + response) \<times> 'w state" where
  "do_get env req st =
     (case requests_get env req (world st) of
        (res, w) \<Rightarrow> (res, emit (HttpGet req res) (st\<lparr>world := w\<rparr>)))"

definition do_chat ::
  "'w env \<Rightarrow> string \<Rightarrow> message list \<Rightarrow> 'w state \<Rightarrow> (string + string option) \<times> 'w state" where
  "do_chat env mdl msgs st =
     (case chat_completions_create env mdl msgs (world st) of
        (res, w) \<Rightarrow> (res, emit (ChatCreate mdl msgs res) (st\<lparr>world := w\<rparr>)))"

definition do_makedirs :: "'w env \<Rightarrow> string \<Rightarrow> 'w state \<Rightarrow> string option \<times> 'w state" where
  "do_makedirs env dir st =
     (case os_makedirs env dir (world st) of
        (res, w) \<Rightarrow> (res, emit (MakeDirs dir res) (st\<lparr>world := w\<rparr>)))"

definition do_to_csv ::
  "'w env \<Rightarrow> string \<Rightarrow> result list \<Rightarrow> 'w state \<Rightarrow> string option \<times> 'w state" where
  "do_to_csv env path df st =
     (case to_csv env path df (world st) of
        (res, w) \<Rightarrow> (res, emit (ToCsv path df res) (st\<lparr>world := w\<rparr>)))"

text \<open>\<^verbatim>\<open>response.raise_for_status()\<close>: an exception for a status from 400 to 599.\<close>

definition raise_for_status :: "response \<Rightarrow> string option" where
  "raise_for_status r =
     (if 400 \<le> status_code r \<and> status_code r < 600 then Some (status_msg r) else None)"

subsection \<open>\<^verbatim>\<open>search_web\<close>\<close>

text \<open>\<^verbatim>\<open>not v\<close> for a value that is \<^verbatim>\<open>None\<close> or a string.\<close>

definition falsy :: "string option \<Rightarrow> bool" where
  "falsy v \<longleftrightarrow> (case v of None \<Rightarrow> True | Some s \<Rightarrow> s = [])"

definition credentials_missing :: "scraper \<Rightarrow> bool" where
  "credentials_missing s \<longleftrightarrow> falsy (google_api_key s) \<or> falsy (search_engine_id s)"

definition credentials_error :: pyerr where
  "credentials_error = ValueError ''Google Custom Search API key and Search Engine ID are required''"

definition base_url :: string where
  "base_url = ''https://www.googleapis.com/customsearch/v1''"

definition opt_str :: "string option \<Rightarrow> string" where
  "opt_str v = (case v of None \<Rightarrow> [] | Some s \<Rightarrow> s)"

definition search_request :: "scraper \<Rightarrow> string \<Rightarrow> int \<Rightarrow> request" where
  "search_request s query max_results =
     \<lparr>req_url = base_url,
      req_params = [(''key'', PStr (opt_str (google_api_key s))),
                    (''cx'', PStr (opt_str (search_engine_id s))),
                    (''q'', PStr query),
                    (''num'', PInt (min max_results 10))],
      req_headers = [],
      req_timeout = timeout s\<rparr>"

definition search_error :: "string \<Rightarrow> string" where
  "search_error msg = ''Error performing Google search: '' @ msg"

text \<open>
  The links of the items; an item without the key \<^verbatim>\<open>'link'\<close> raises
  \<^verbatim>\<open>KeyError('link')\<close>, whose text is \<^verbatim>\<open>'link'\<close> in quotes.
\<close>

fun links :: "string option list \<Rightarrow> string + string list" where
  "links [] = Inr []"
| "links (None # its) = Inl [CHR 0x27, CHR ''l'', CHR ''i'', CHR ''n'', CHR ''k'', CHR 0x27]"
| "links (Some l # its) = (case links its of Inl e \<Rightarrow> Inl e | Inr ls \<Rightarrow> Inr (l # ls))"

definition search_web ::
  "'w env \<Rightarrow> string \<Rightarrow> int \<Rightarrow> 'w state \<Rightarrow> (pyerr + string list) \<times> 'w state" where
  "search_web env query max_results st =
     (if credentials_missing (self st) then (Inl credentials_error, st)
      else
        case do_get env (search_request (self st) query max_results) st of
          (Inl msg, st1) \<Rightarrow> (Inr [], py_print (search_error msg) st1)
        | (Inr resp, st1) \<Rightarrow>
            (case raise_for_status resp of
               Some msg \<Rightarrow> (Inr [], py_print (search_error msg) st1)
             | None \<Rightarrow>
                 (case body_json resp of
                    Inl msg \<Rightarrow> (Inr [], py_print (search_error msg) st1)
                  | Inr None \<Rightarrow> (Inr [], st1)
                  | Inr (Some its) \<Rightarrow>
                      (case links its of
                         Inl msg \<Rightarrow> (Inr [], py_print (search_error msg) st1)
                       | Inr urls \<Rightarrow> (Inr urls, st1)))))"

subsection \<open>\<^verbatim>\<open>_respect_rate_limit\<close> and \<^verbatim>\<open>get_page_content\<close>\<close>

text \<open>
  \<^verbatim>\<open>1 / self.rate_limit\<close> is evaluated in the condition, and raises
  \<^verbatim>\<open>ZeroDivisionError\<close> for a rate limit of zero. Neither this exception nor one of
  \<^verbatim>\<open>time.sleep\<close> is caught: the call of \<^verbatim>\<open>_respect_rate_limit\<close> in
  \<^verbatim>\<open>get_page_content\<close> stands before the \<^verbatim>\<open>try\<close> block. \<open>stamp\<close> is the assignment
  \<^verbatim>\<open>self.last_request_time = time.time()\<close>.
\<close>

definition stamp :: "'w env \<Rightarrow> 'w state \<Rightarrow> 'w state" where
  "stamp env st = st\<lparr>self := (self st)\<lparr>last_request_time := time_time env (world st)\<rparr>\<rparr>"

definition respect_rate_limit :: "'w env \<Rightarrow> 'w state \<Rightarrow> (pyerr + unit) \<times> 'w state" where
  "respect_rate_limit env st =
     (let current_time = time_time env (world st);
          time_since_last_request = current_time - last_request_time (self st)
      in if rate_limit (self st) = 0 then (Inl (ZeroDivisionError ''float division by zero''), st)
         else if time_since_last_request < 1 / rate_limit (self st) then
           (case do_sleep env (1 / rate_limit (self st) - time_since_last_request) st of
              (Some msg, st1) \<Rightarrow> (Inl (OverflowError msg), st1)
            | (None, st1) \<Rightarrow> (Inr (), stamp env st1))
         else (Inr (), stamp env st))"

definition page_request :: "scraper \<Rightarrow> string \<Rightarrow> string \<Rightarrow> request" where
  "page_request s url ua =
     \<lparr>req_url = url, req_params = [], req_headers = [(''User-Agent'', ua)],
      req_timeout = timeout s\<rparr>"

definition fetch_error :: "string \<Rightarrow> string \<Rightarrow> string" where
  "fetch_error url msg = ''Error fetching '' @ url @ '': '' @ msg"

definition get_page_content ::
  "'w env \<Rightarrow> string \<Rightarrow> 'w state \<Rightarrow> (pyerr + string option) \<times> 'w state" where
  "get_page_content env url st =
     (case respect_rate_limit env st of
        (Inl e, st1) \<Rightarrow> (Inl e, st1)
      | (Inr _, st1) \<Rightarrow>
          (case user_agent_random env (world st1) of
             (ua, w) \<Rightarrow>
               (case do_get env (page_request (self st1) url ua) (st1\<lparr>world := w\<rparr>) of
                  (Inl msg, st2) \<Rightarrow> (Inr None, py_print (fetch_error url msg) st2)
                | (Inr resp, st2) \<Rightarrow>
                    (case raise_for_status resp of
                       Some msg \<Rightarrow> (Inr None, py_print (fetch_error url msg) st2)
                     | None \<Rightarrow> (Inr (Some (body_text resp)), st2)))))"

subsection \<open>\<^verbatim>\<open>analyze_with_ai\<close>\<close>

definition system_message :: message where
  "system_message =
     \<lparr>role = ''system'', content = ''You are a helpful assistant that analyzes web content.''\<rparr>"

text \<open>\<^verbatim>\<open>f"{prompt}\n\nContent: {content[:4000]}"\<close>\<close>

definition user_message :: "string \<Rightarrow> string \<Rightarrow> message" where
  "user_message prompt page_text =
     \<lparr>role = ''user'',
      content = prompt @ [CHR 0x0A, CHR 0x0A] @ ''Content: '' @ take 4000 page_text\<rparr>"

definition analyze_with_ai ::
  "'w env \<Rightarrow> string \<Rightarrow> string \<Rightarrow> 'w state \<Rightarrow> analysis \<times> 'w state" where
  "analyze_with_ai env page_text prompt st =
     (case do_chat env ''gpt-3.5-turbo'' [system_message, user_message prompt page_text] st of
        (Inr answer, st1) \<Rightarrow> (AiOk answer, st1)
      | (Inl msg, st1) \<Rightarrow> (AiError msg, st1))"

subsection \<open>\<^verbatim>\<open>scrape_website\<close>, \<^verbatim>\<open>bulk_scrape\<close> and \<^verbatim>\<open>search_and_analyze\<close>\<close>

definition fetch_failed :: result where
  "fetch_failed = Failure ''Failed to fetch content''"

definition scrape_website ::
  "'w env \<Rightarrow> string \<Rightarrow> string \<Rightarrow> 'w state \<Rightarrow> (pyerr + result) \<times> 'w state" where
  "scrape_website env url ai_prompt st =
     (case get_page_content env url st of
        (Inl e, st1) \<Rightarrow> (Inl e, st1)
      | (Inr None, st1) \<Rightarrow> (Inr fetch_failed, st1)
      | (Inr (Some page), st1) \<Rightarrow>
          if page = [] then (Inr fetch_failed, st1)
          else
            let text_content = soup_get_text env page;
                emails = extract_emails (set_order env) page
            in case analyze_with_ai env text_content ai_prompt st1 of
                 (AiOk answer, st2) \<Rightarrow> (Inr (Success url emails answer), st2)
               | (AiError msg, st2) \<Rightarrow> (Inr (Success url emails None), st2))"

fun success :: "result \<Rightarrow> bool" where
  "success (Failure msg) = False"
| "success (Success url emails answer) = True"

text \<open>The \<^verbatim>\<open>for\<close> loop of \<^verbatim>\<open>bulk_scrape\<close>, with the list \<^verbatim>\<open>results\<close> it appends to.\<close>

fun scrape_loop ::
  "'w env \<Rightarrow> string \<Rightarrow> string list \<Rightarrow> result list \<Rightarrow> 'w state \<Rightarrow> (pyerr + result list) \<times> 'w state"
  where
  "scrape_loop env ai_prompt [] results st = (Inr results, st)"
| "scrape_loop env ai_prompt (url # urls) results st =
     (case scrape_website env url ai_prompt st of
        (Inl e, st1) \<Rightarrow> (Inl e, st1)
      | (Inr r, st1) \<Rightarrow>
          scrape_loop env ai_prompt urls (if success r then results @ [r] else results) st1)"

text \<open>\<^verbatim>\<open>os.getenv(name, default)\<close> and \<^verbatim>\<open>os.path.join\<close> of two parts (POSIX).\<close>

definition getenv_default :: "'w env \<Rightarrow> string \<Rightarrow> string \<Rightarrow> string" where
  "getenv_default env name dflt = (case getenv env name of None \<Rightarrow> dflt | Some v \<Rightarrow> v)"

definition path_join :: "string \<Rightarrow> string \<Rightarrow> string" where
  "path_join a b =
     (if take 1 b = ''/'' then b
      else if a = [] \<or> drop (length a - 1) a = ''/'' then a @ b
      else a @ ''/'' @ b)"

definition csv_path :: "'w env \<Rightarrow> string" where
  "csv_path env =
     path_join (getenv_default env ''OUTPUT_DIR'' ''output'')
       (getenv_default env ''CSV_FILENAME'' ''scraped_data.csv'')"

definition bulk_scrape ::
  "'w env \<Rightarrow> string list \<Rightarrow> string \<Rightarrow> 'w state \<Rightarrow> (pyerr + result list) \<times> 'w state" where
  "bulk_scrape env urls ai_prompt st =
     (case scrape_loop env ai_prompt urls [] st of
        (Inl e, st1) \<Rightarrow> (Inl e, st1)
      | (Inr results, st1) \<Rightarrow>
          (case do_makedirs env (getenv_default env ''OUTPUT_DIR'' ''output'') st1 of
             (Some msg, st2) \<Rightarrow> (Inl (OSError msg), st2)
           | (None, st2) \<Rightarrow>
               (case do_to_csv env (csv_path env) results st2 of
                  (Some msg, st3) \<Rightarrow> (Inl (OSError msg), st3)
                | (None, st3) \<Rightarrow> (Inr results, st3))))"

definition search_and_analyze ::
  "'w env \<Rightarrow> string \<Rightarrow> string \<Rightarrow> int \<Rightarrow> 'w state \<Rightarrow> (pyerr + result list) \<times> 'w state" where
  "search_and_analyze env search_query ai_prompt max_results st =
     (case search_web env search_query max_results st of
        (Inl e, st1) \<Rightarrow> (Inl e, st1)
      | (Inr urls, st1) \<Rightarrow>
          if urls = [] then (Inr [], py_print ''No search results found'' st1)
          else bulk_scrape env urls ai_prompt st1)"

subsection \<open>Calls in a row, and the clock\<close>



subsection \<open>A small world for examples\<close>

text \<open>
  A web of five addresses (the search endpoint, a page with a \<^verbatim>\<open>mailto:\<close> link, an
  empty page, a page that is gone and, for every other address, a timeout), a model that
  refuses prompts starting with \<^verbatim>\<open>FAIL\<close>, a clock that is the world itself, a sleep
  that raises for more than 9223372036 seconds (what 64 bits of nanoseconds hold), and
  a text extraction that drops the tags.
\<close>

fun strip_tags :: "bool \<Rightarrow> string \<Rightarrow> string" where
  "strip_tags inside [] = []"
| "strip_tags inside (c # cs) =
     (if c = CHR ''<'' then strip_tags True cs
      else if c = CHR ''>'' then strip_tags False cs
      else if inside then strip_tags True cs
      else c # strip_tags False cs)"

definition ok_response :: "string \<Rightarrow> string + response" where
  "ok_response body =
     Inr \<lparr>status_code = 200, status_msg = [], body_text = body, body_json = Inl ''not JSON''\<rparr>"

definition demo_web :: "request \<Rightarrow> string + response" where
  "demo_web req =
     (if req_url req = base_url then
        if (''q'', PStr ''offline'') \<in> set (req_params req) then Inl ''Name resolution failed''
        else
          Inr \<lparr>status_code = 200, status_msg = [], body_text = [],
               body_json = Inr (if (''q'', PStr ''nothing'') \<in> set (req_params req) then None
                                else Some [Some ''http://down.example'', Some ''http://ok.example''])\<rparr>
      else if req_url req = ''http://ok.example''
        then ok_response ''<a href=mailto:bob@x.org>write to us</a>''
      else if req_url req = ''http://empty.example'' then ok_response []
      else if req_url req = ''http://gone.example''
        then Inr \<lparr>status_code = 404, status_msg = ''404 Client Error: Not Found'',
                  body_text = ''<h1>Not Found</h1>'', body_json = Inl ''not JSON''\<rparr>
      else Inl ''Connection timed out'')"

definition demo_chat :: "message list \<Rightarrow> string + string option" where
  "demo_chat msgs =
     (if list_ex (\<lambda>m. role m = ''user'' \<and> take 4 (content m) = ''FAIL'') msgs
      then Inl ''Rate limit reached'' else Inr (Some ''A small company.''))"

definition demo_env :: "rat env" where
  "demo_env =
     \<lparr>getenv = (\<lambda>name. None),
      time_time = (\<lambda>w. w),
      time_sleep = (\<lambda>d w. if 9223372036 < d
                            then (Some ''timestamp too large to convert to C _PyTime_t'', w)
                            else (None, w + d)),
      requests_get = (\<lambda>req w. (demo_web req, w + 1 / 10)),
      user_agent_random = (\<lambda>w. (''Mozilla/5.0'', w)),
      chat_completions_create = (\<lambda>mdl msgs w. (demo_chat msgs, w + 1)),
      soup_get_text = strip_tags False,
      set_order = length,
      os_makedirs = (\<lambda>dir w. (None, w)),
      to_csv = (\<lambda>path df w. (None, w))\<rparr>"

definition demo_state :: "rat state" where
  "demo_state =
     \<lparr>self = \<lparr>rate_limit = 2, timeout = 30, last_request_time = 0,
              google_api_key = Some ''key'', search_engine_id = Some ''cx''\<rparr>,
      world = 1000, trace = []\<rparr>"

definition no_key_state :: "rat state" where
  "no_key_state = demo_state\<lparr>self := (self demo_state)\<lparr>google_api_key := None\<rparr>\<rparr>"

text \<open>A scraper whose rate limit asks for a pause of a hundred billion seconds.\<close>

definition slow_state :: "rat state" where
  "slow_state = demo_state\<lparr>self := (self demo_state)\<lparr>rate_limit := 1 / 100000000000,
                                                        last_request_time := 1000\<rparr>\<rparr>"

text \<open>The requests among the events of a trace, and the events added from one state to a later one.\<close>

fun http_requests :: "event list \<Rightarrow> request list" where
  "http_requests [] = []"
| "http_requests (HttpGet req res # evs) = req # http_requests evs"
| "http_requests (ev # evs) = http_requests evs"

definition new_events :: "'w state \<Rightarrow> 'w state \<Rightarrow> event list" where
  "new_events st st' = drop (length (trace st)) (trace st')"

text \<open>
  The exception, if any, that an outcome of the search request raises inside the
  \<^verbatim>\<open>try\<close> block of \<^verbatim>\<open>search_web\<close>.
\<close>

definition search_failure :: "string + response \<Rightarrow> string option" where
  "search_failure res =
     (case res of
        Inl msg \<Rightarrow> Some msg
      | Inr resp \<Rightarrow>
          (case raise_for_status resp of
             Some msg \<Rightarrow> Some msg
           | None \<Rightarrow>
               (case body_json resp of
                  Inl msg \<Rightarrow> Some msg
                | Inr None \<Rightarrow> None
                | Inr (Some its) \<Rightarrow> (case links its of Inl msg \<Rightarrow> Some msg | Inr urls \<Rightarrow> None))))"

definition no_items_response :: response where
  "no_items_response =
     \<lparr>status_code = 200, status_msg = [], body_text = [], body_json = Inr None\<rparr>"

subsection \<open>Reading a trace\<close>

text \<open>
  What a page request gives \<^verbatim>\<open>get_page_content\<close> to return: the body, or nothing when
  the request raised or the status is an error. A fetch is good when it gives a body
  that is not empty.
\<close>

definition content_of :: "string + response \<Rightarrow> string option" where
  "content_of res =
     (case res of
        Inl msg \<Rightarrow> None
      | Inr resp \<Rightarrow> (case raise_for_status resp of Some msg \<Rightarrow> None | None \<Rightarrow> Some (body_text resp)))"

definition fetch_ok :: "string + response \<Rightarrow> bool" where
  "fetch_ok res \<longleftrightarrow> (case content_of res of None \<Rightarrow> False | Some page \<Rightarrow> page \<noteq> [])"

text \<open>
  The page requests of a trace with their outcomes, the answers of the model (none for
  a call that failed), and the fields \<^verbatim>\<open>url\<close> and \<^verbatim>\<open>ai_analysis\<close> of a row.
\<close>

fun page_fetches :: "event list \<Rightarrow> (string \<times> (string + response)) list" where
  "page_fetches [] = []"
| "page_fetches (HttpGet req res # evs) = (req_url req, res) # page_fetches evs"
| "page_fetches (ev # evs) = page_fetches evs"

fun answers :: "event list \<Rightarrow> string option list" where
  "answers [] = []"
| "answers (ChatCreate mdl msgs (Inr answer) # evs) = answer # answers evs"
| "answers (ChatCreate mdl msgs (Inl msg) # evs) = None # answers evs"
| "answers (ev # evs) = answers evs"

fun row_url :: "result \<Rightarrow> string option" where
  "row_url (Failure msg) = None"
| "row_url (Success url emails answer) = Some url"

fun row_answer :: "result \<Rightarrow> string option" where
  "row_answer (Failure msg) = None"
| "row_answer (Success url emails answer) = answer"

text \<open>The URLs of the good fetches of a trace, and the messages of the model calls that failed.\<close>

definition fetched_ok :: "event list \<Rightarrow> string list" where
  "fetched_ok evs = map fst (filter (\<lambda>p. fetch_ok (snd p)) (page_fetches evs))"

fun failed_chats :: "event list \<Rightarrow> string list" where
  "failed_chats [] = []"
| "failed_chats (ChatCreate mdl msgs (Inl msg) # evs) = msg # failed_chats evs"
| "failed_chats (ev # evs) = failed_chats evs"

section \<open>Properties\<close>

subsection \<open>The matcher and the scan\<close>

lemma first_some_SomeD:
  "first_some (map f ks) = Some r \<Longrightarrow> \<exists>k \<in> set ks. f k = Some r"
  by (induction ks) (auto split: option.splits if_splits elim: first_some.elims)

lemma first_some_None_iff:
  "first_some xs = None \<longleftrightarrow> (\<forall>x \<in> set xs. x = None)"
  by (induction xs rule: first_some.induct) auto

lemma list_all_take_takeWhile:
  assumes k: "k \<le> length (takeWhile p s)"
  shows "list_all p (take k s)"
proof -
  have "take k s = take k (takeWhile p s)"
    using k by (metis append_eq_conv_conj takeWhile_dropWhile_id min.absorb2 min.commute take_take)
  moreover have "list_all p (takeWhile p s)"
    by (simp add: list_all_iff) (meson set_takeWhileD)
  ultimately show ?thesis
    by (metis list_all_iff in_set_takeD)
qed

text \<open>What the matcher consumes is a word of the pattern's language.\<close>

lemma match_here_sound:
  "match_here pat s = Some r \<Longrightarrow> \<exists>e. s = e @ r \<and> matches pat e"
proof (induction pat arbitrary: s)
  case Nil
  then show ?case by simp
next
  case (Cons i pat)
  show ?case
  proof (cases i)
    case (Lit c)
    with Cons.prems obtain xs where s: "s = c # xs" and m: "match_here pat xs = Some r"
      by (auto split: list.splits if_splits)
    from Cons.IH[OF m] obtain e where "xs = e @ r" "matches pat e" by blast
    with s Lit show ?thesis by (intro exI[of _ "c # e"]) simp
  next
    case (Rep p n)
    with Cons.prems obtain k where k: "n \<le> k" "k \<le> length (takeWhile p s)"
      and m: "match_here pat (drop k s) = Some r"
      by (auto dest!: first_some_SomeD)
    from Cons.IH[OF m] obtain e where e: "drop k s = e @ r" "matches pat e" by blast
    have kl: "k \<le> length s"
      using k(2) length_takeWhile_le[of p s] by linarith
    have all: "list_all p (take k s)" using k(2) by (rule list_all_take_takeWhile)
    let ?w = "take k s @ e"
    have "s = ?w @ r" using e(1) by (metis append.assoc append_take_drop_id)
    moreover have "matches (Rep p n # pat) ?w"
      using k(1) kl all e(2) by (auto intro!: bexI[of _ k])
    ultimately show ?thesis using Rep by blast
  qed
qed

text \<open>Every reported match is a piece of the text and a word of the pattern's language.\<close>

lemma findall_sound:
  "e \<in> set (findall pat s) \<Longrightarrow> sublist e s \<and> matches pat e"
proof (induction pat s rule: findall.induct)
  case (1 pat)
  then show ?case by simp
next
  case (2 pat c cs)
  show ?case
  proof (cases "match_here pat (c # cs)")
    case None
    with 2 have "sublist e cs \<and> matches pat e" by simp
    then show ?thesis by (auto intro: sublist_Cons_right[THEN iffD2])
  next
    case (Some rest)
    from match_here_sound[OF Some] obtain w where w: "c # cs = w @ rest" "matches pat w" by blast
    show ?thesis
    proof (cases "length rest < length (c # cs)")
      case True
      have tk: "take (length (c # cs) - length rest) (c # cs) = w"
        using w(1) by (metis add_diff_cancel_right' append_eq_conv_conj length_append)
      from "2.prems" Some True tk have "e = w \<or> e \<in> set (findall pat rest)" by auto
      then show ?thesis
      proof
        assume "e = w"
        then show ?thesis using w by (metis sublist_appendI append_Nil)
      next
        assume "e \<in> set (findall pat rest)"
        with "2.IH"(2)[OF Some True] have "sublist e rest" "matches pat e" by auto
        then obtain ps ss where "rest = ps @ e @ ss" by (auto simp: sublist_def)
        then have "c # cs = (w @ ps) @ e @ ss" using w(1) by simp
        then have "sublist e (c # cs)" unfolding sublist_def by blast
        then show ?thesis using \<open>matches pat e\<close> by simp
      qed
    next
      case False
      with 2 Some have "sublist e cs \<and> matches pat e" by simp
      then show ?thesis by (auto intro: sublist_Cons_right[THEN iffD2])
    qed
  qed
qed

lemma takeWhile_length_ge:
  "list_all p (take k s) \<Longrightarrow> k \<le> length s \<Longrightarrow> k \<le> length (takeWhile p s)"
proof (induction s arbitrary: k)
  case Nil
  then show ?case by simp
next
  case (Cons x xs)
  then show ?case by (cases k) auto
qed

lemma match_here_complete:
  "matches pat e \<Longrightarrow> match_here pat (e @ t) \<noteq> None"
proof (induction pat arbitrary: e)
  case Nil
  then show ?case by simp
next
  case (Cons i pat)
  show ?case
  proof (cases i)
    case (Lit c)
    with Cons.prems obtain xs where "e = c # xs" "matches pat xs"
      by (auto split: list.splits)
    with Cons.IH[of xs] Lit show ?thesis by simp
  next
    case (Rep p n)
    with Cons.prems obtain k where k: "n \<le> k" "k \<le> length e"
      and all: "list_all p (take k e)" and m: "matches pat (drop k e)"
      by auto
    have "list_all p (take k (e @ t))" using all k(2) by simp
    then have "k \<le> length (takeWhile p (e @ t))"
      using k(2) by (intro takeWhile_length_ge) auto
    then have mem: "k \<in> set (rev [n ..< Suc (length (takeWhile p (e @ t)))])"
      using k(1) by auto
    have "match_here pat (drop k (e @ t)) \<noteq> None"
      using Cons.IH[OF m] k(2) by simp
    with mem have "first_some (map (\<lambda>k. match_here pat (drop k (e @ t)))
        (rev [n ..< Suc (length (takeWhile p (e @ t)))])) \<noteq> None"
      unfolding first_some_None_iff by (metis (no_types, lifting) image_eqI set_map)
    then show ?thesis using Rep by simp
  qed
qed

lemma email_not_empty: "\<not> matches email_pattern []"
  by (simp add: email_pattern_def)

lemma match_here_email_shorter:
  assumes "match_here email_pattern s = Some r"
  shows "length r < length s"
proof -
  from match_here_sound[OF assms] obtain e where e: "s = e @ r" "matches email_pattern e"
    by blast
  with email_not_empty have "e \<noteq> []" by auto
  with e(1) show ?thesis by simp
qed

lemma findall_email_complete:
  "sublist e s \<Longrightarrow> is_email e \<Longrightarrow> findall email_pattern s \<noteq> []"
proof (induction s)
  case Nil
  then show ?case using email_not_empty by (simp add: is_email_def)
next
  case (Cons c cs)
  from Cons.prems(1) consider (here) "prefix e (c # cs)" | (later) "sublist e cs"
    by (auto simp: sublist_Cons_right)
  then show ?case
  proof cases
    case here
    then obtain t where "c # cs = e @ t" by (auto simp: prefix_def)
    with match_here_complete[of email_pattern e t] Cons.prems(2)
    obtain rest where r: "match_here email_pattern (c # cs) = Some rest"
      by (auto simp: is_email_def)
    from match_here_email_shorter[OF r] r show ?thesis by simp
  next
    case later
    with Cons.IH Cons.prems(2) have "findall email_pattern cs \<noteq> []" by simp
    then show ?thesis by (simp split: option.splits)
  qed
qed

lemma list_of_set_props:
  "set (list_of_set rank xs) = set xs" "distinct (list_of_set rank xs)"
  by (simp_all add: list_of_set_def)

subsection \<open>Email extraction\<close>

text \<open>
  Claim C4. For every input text, \<^verbatim>\<open>extract_emails\<close> returns exactly the distinct
  matches of the email pattern: its elements are those that \<^verbatim>\<open>re.findall\<close> reports,
  whatever the order of the set; no element occurs twice; every element is a piece of
  the text that matches the pattern as a whole; and when any piece of the text matches
  the pattern, the result is not empty.
\<close>

theorem extract_emails_exact:
  "set (extract_emails rank doc) = set (findall email_pattern doc)
   \<and> distinct (extract_emails rank doc)
   \<and> (\<forall>e \<in> set (extract_emails rank doc). sublist e doc \<and> is_email e)
   \<and> ((\<exists>e. sublist e doc \<and> is_email e) \<longrightarrow> extract_emails rank doc \<noteq> [])"
proof -
  have s: "set (extract_emails rank doc) = set (findall email_pattern doc)"
    and d: "distinct (extract_emails rank doc)"
    by (simp_all add: extract_emails_def list_of_set_props)
  have m: "\<forall>e \<in> set (extract_emails rank doc). sublist e doc \<and> is_email e"
    using findall_sound[of _ email_pattern doc] unfolding s is_email_def by blast
  have c: "(\<exists>e. sublist e doc \<and> is_email e) \<longrightarrow> extract_emails rank doc \<noteq> []"
    using findall_email_complete[of _ doc] s by (metis set_empty)
  from s d m c show ?thesis by blast
qed

theorem extract_emails_exact_witness:
  "extract_emails length ''<a href=mailto:bob@x.org>write</a> al@y.io al@y.io''
     = [''al@y.io'', ''bob@x.org'']
   \<and> sublist ''bob@x.org'' ''<a href=mailto:bob@x.org>write</a> al@y.io al@y.io''
   \<and> is_email ''bob@x.org''"
proof -
  let ?t = "''<a href=mailto:bob@x.org>write</a> al@y.io al@y.io''"
  have v: "extract_emails length ?t = [''al@y.io'', ''bob@x.org'']"
    by code_simp
  then have "''bob@x.org'' \<in> set (extract_emails length ?t)" by simp
  with extract_emails_exact[of length ?t] v show ?thesis by blast
qed

subsection \<open>Search and credentials\<close>

text \<open>
  Claim C2, as the code has it. When the API key or the search engine ID is missing,
  \<^verbatim>\<open>search_web\<close> raises \<^verbatim>\<open>ValueError\<close> and leaves the state as it was. When both
  are present it never raises: it returns a list, and whenever the request, the status
  check, the JSON decoding or the reading of a link raises inside the \<^verbatim>\<open>try\<close> block,
  the message is printed and the list is empty.
\<close>

theorem search_web_outcomes:
  "(credentials_missing (self st) \<longrightarrow> search_web env query n st = (Inl credentials_error, st))
   \<and> (\<not> credentials_missing (self st) \<longrightarrow>
        (\<exists>urls. fst (search_web env query n st) = Inr urls)
        \<and> (\<forall>res st1 msg.
             do_get env (search_request (self st) query n) st = (res, st1)
             \<and> search_failure res = Some msg
             \<longrightarrow> search_web env query n st = (Inr [], py_print (search_error msg) st1)))"
  by (auto simp: search_web_def search_failure_def split: prod.splits sum.splits option.splits)

theorem search_web_outcomes_witness:
  "\<not> credentials_missing (self demo_state)
   \<and> search_failure (fst (do_get demo_env (search_request (self demo_state) ''offline'' 5) demo_state))
       = Some ''Name resolution failed''
   \<and> search_web demo_env ''offline'' 5 demo_state
       = (Inr [], py_print (search_error ''Name resolution failed'')
                   (snd (do_get demo_env (search_request (self demo_state) ''offline'' 5) demo_state)))
   \<and> credentials_missing (self no_key_state)
   \<and> search_web demo_env ''offline'' 5 no_key_state = (Inl credentials_error, no_key_state)"
proof -
  have a: "\<not> credentials_missing (self demo_state)"
    by (simp add: credentials_missing_def falsy_def demo_state_def)
  have b: "search_failure (fst (do_get demo_env (search_request (self demo_state) ''offline'' 5) demo_state))
       = Some ''Name resolution failed''"
    by (simp add: search_failure_def do_get_def demo_env_def demo_web_def search_request_def)
  have c: "credentials_missing (self no_key_state)"
    by (simp add: credentials_missing_def falsy_def no_key_state_def demo_state_def)
  from search_web_outcomes[of demo_state demo_env "''offline''" 5] a b
  have "search_web demo_env ''offline'' 5 demo_state
       = (Inr [], py_print (search_error ''Name resolution failed'')
                   (snd (do_get demo_env (search_request (self demo_state) ''offline'' 5) demo_state)))"
    by (metis prod.collapse)
  moreover from search_web_outcomes[of no_key_state demo_env "''offline''" 5] c
  have "search_web demo_env ''offline'' 5 no_key_state = (Inl credentials_error, no_key_state)"
    by blast
  ultimately show ?thesis using a b c by blast
qed

text \<open>
  The claim as the specification words it (an empty list, nothing raised, when a
  credential is missing) fails: without a key the call raises.
\<close>

theorem search_web_missing_key_counterexample:
  "fst (search_web demo_env ''startups'' 5 no_key_state) = Inl credentials_error
   \<and> fst (search_web demo_env ''startups'' 5 no_key_state) \<noteq> Inr []"
  by (simp add: search_web_def credentials_missing_def falsy_def no_key_state_def demo_state_def)

text \<open>
  Claim C3. When the API key or the search engine ID is missing, \<^verbatim>\<open>search_web\<close>, and
  with it \<^verbatim>\<open>search_and_analyze\<close>, raises the \<^verbatim>\<open>ValueError\<close> at once: the state that
  comes back is the state that went in, so nothing was requested, printed or written.
\<close>

theorem missing_credentials_abort:
  assumes "credentials_missing (self st)"
  shows "search_web env query n st = (Inl credentials_error, st)
       \<and> search_and_analyze env query prompt n st = (Inl credentials_error, st)"
  using assms by (simp add: search_web_def search_and_analyze_def)

theorem missing_credentials_abort_witness:
  "credentials_missing (self no_key_state)
   \<and> search_web demo_env ''startups'' 5 no_key_state = (Inl credentials_error, no_key_state)
   \<and> search_and_analyze demo_env ''startups'' ''Describe'' 5 no_key_state
       = (Inl credentials_error, no_key_state)
   \<and> http_requests (trace no_key_state) = []"
proof -
  have h: "credentials_missing (self no_key_state)"
    by (simp add: credentials_missing_def falsy_def no_key_state_def demo_state_def)
  have t: "http_requests (trace no_key_state) = []"
    by (simp add: no_key_state_def demo_state_def)
  from missing_credentials_abort[OF h, of demo_env "''startups''" 5 "''Describe''"] h t
  show ?thesis by simp
qed

text \<open>
  Claim C8. When the search succeeds and its answer has no \<^verbatim>\<open>'items'\<close> key, or an empty
  list of items, \<^verbatim>\<open>search_web\<close> returns the empty list and \<^verbatim>\<open>search_and_analyze\<close> returns
  an empty table; the only events of the run are the search request and the message
  that nothing was found, so no page is fetched.
\<close>

theorem no_search_results_short_circuit:
  assumes "\<not> credentials_missing (self st)"
    and "do_get env (search_request (self st) query n) st = (Inr resp, st1)"
    and "raise_for_status resp = None"
    and "body_json resp = Inr None \<or> body_json resp = Inr (Some [])"
  shows "search_web env query n st = (Inr [], st1)
       \<and> search_and_analyze env query prompt n st
           = (Inr [], py_print ''No search results found'' st1)
       \<and> new_events st (py_print ''No search results found'' st1)
           = [HttpGet (search_request (self st) query n) (Inr resp),
              Printed ''No search results found'']"
proof -
  have sw: "search_web env query n st = (Inr [], st1)"
    using assms by (auto simp: search_web_def)
  have tr: "trace st1 = trace st @ [HttpGet (search_request (self st) query n) (Inr resp)]"
    using assms(2) by (auto simp: do_get_def emit_def split: prod.splits)
  show ?thesis
    using sw tr by (simp add: search_and_analyze_def new_events_def py_print_def emit_def)
qed

theorem no_search_results_short_circuit_witness:
  "fst (search_and_analyze demo_env ''nothing'' ''Describe'' 5 demo_state) = Inr []
   \<and> http_requests (trace (snd (search_and_analyze demo_env ''nothing'' ''Describe'' 5 demo_state)))
       = [search_request (self demo_state) ''nothing'' 5]"
proof -
  let ?st1 = "snd (do_get demo_env (search_request (self demo_state) ''nothing'' 5) demo_state)"
  have a: "\<not> credentials_missing (self demo_state)"
    by (simp add: credentials_missing_def falsy_def demo_state_def)
  have b: "do_get demo_env (search_request (self demo_state) ''nothing'' 5) demo_state
      = (Inr no_items_response, ?st1)"
    by (simp add: do_get_def demo_env_def demo_web_def search_request_def no_items_response_def)
  have c: "raise_for_status no_items_response = None"
    by (simp add: raise_for_status_def no_items_response_def)
  have d: "body_json no_items_response = Inr None \<or> body_json no_items_response = Inr (Some [])"
    by (simp add: no_items_response_def)
  have e: "trace demo_state = []" by (simp add: demo_state_def)
  from no_search_results_short_circuit[OF a b c d, of "''Describe''"] e
  show ?thesis by (simp add: new_events_def)
qed

subsection \<open>Analysis\<close>

text \<open>
  Claim C6. The request that \<^verbatim>\<open>analyze_with_ai\<close> sends holds, after the prompt and the
  separator, a prefix of the page text of at most 4000 characters: the whole text
  when it is no longer than that, its first 4000 characters otherwise.
\<close>

theorem analyze_with_ai_truncates:
  "\<exists>c res.
     trace (snd (analyze_with_ai env page prompt st))
       = trace st @ [ChatCreate ''gpt-3.5-turbo''
                      [system_message,
                       \<lparr>role = ''user'',
                        content = prompt @ [CHR 0x0A, CHR 0x0A] @ ''Content: '' @ c\<rparr>] res]
     \<and> prefix c page \<and> length c = min 4000 (length page)"
proof -
  obtain res w where r: "chat_completions_create env ''gpt-3.5-turbo''
      [system_message, user_message prompt page] (world st) = (res, w)"
    by (cases "chat_completions_create env ''gpt-3.5-turbo''
      [system_message, user_message prompt page] (world st)") 
  have "trace (snd (analyze_with_ai env page prompt st))
       = trace st @ [ChatCreate ''gpt-3.5-turbo''
                      [system_message,
                       \<lparr>role = ''user'',
                        content = prompt @ [CHR 0x0A, CHR 0x0A] @ ''Content: '' @ take 4000 page\<rparr>] res]"
    using r by (cases res) (simp_all add: analyze_with_ai_def do_chat_def emit_def user_message_def)
  moreover have "prefix (take 4000 page) page" by (rule take_is_prefix)
  moreover have "length (take 4000 page) = min 4000 (length page)" by simp
  ultimately show ?thesis by blast
qed

subsection \<open>One page\<close>

text \<open>
  Claim C10. A page whose body is the empty string is handled as a fetch that failed:
  \<^verbatim>\<open>scrape_website\<close> returns the failure \<^verbatim>\<open>"Failed to fetch content"\<close>, and the loop of
  \<^verbatim>\<open>bulk_scrape\<close> goes on with the list of results unchanged.
\<close>

theorem empty_body_is_failed_fetch:
  assumes "get_page_content env url st = (Inr body, st1)"
    and "body = None \<or> body = Some []"
  shows "scrape_website env url prompt st = (Inr (Failure ''Failed to fetch content''), st1)
       \<and> scrape_loop env prompt (url # urls) results st = scrape_loop env prompt urls results st1"
  using assms by (auto simp: scrape_website_def fetch_failed_def)

theorem empty_body_is_failed_fetch_witness:
  "fst (get_page_content demo_env ''http://empty.example'' demo_state) = Inr (Some [])
   \<and> fst (scrape_website demo_env ''http://empty.example'' ''Describe'' demo_state)
       = Inr (Failure ''Failed to fetch content'')
   \<and> fst (scrape_loop demo_env ''Describe'' [''http://empty.example''] [] demo_state) = Inr []"
proof -
  let ?r = "get_page_content demo_env ''http://empty.example'' demo_state"
  have f: "fst ?r = Inr (Some [])" by code_simp
  then have h: "?r = (Inr (Some []), snd ?r)" by (metis prod.collapse)
  from empty_body_is_failed_fetch[OF h, of "''Describe''" "[]" "[]"] f
  show ?thesis by simp
qed

lemma stamp_soup: "stamp (env\<lparr>soup_get_text := g\<rparr>) st = stamp env st"
  by (simp add: stamp_def)

lemma do_sleep_soup: "do_sleep (env\<lparr>soup_get_text := g\<rparr>) d st = do_sleep env d st"
  by (simp add: do_sleep_def)

lemma do_get_soup: "do_get (env\<lparr>soup_get_text := g\<rparr>) req st = do_get env req st"
  by (simp add: do_get_def)

lemma respect_rate_limit_soup:
  "respect_rate_limit (env\<lparr>soup_get_text := g\<rparr>) st = respect_rate_limit env st"
  by (simp add: respect_rate_limit_def stamp_soup do_sleep_soup Let_def
           cong: prod.case_cong option.case_cong)

lemma get_page_content_soup:
  "get_page_content (env\<lparr>soup_get_text := g\<rparr>) url st = get_page_content env url st"
  by (simp add: get_page_content_def respect_rate_limit_soup do_get_soup
           cong: prod.case_cong sum.case_cong)

text \<open>
  Claim C5. When the fetch gives a page that is not empty, the emails of the result are
  those extracted from the page as it was fetched, whatever the extraction of the
  visible text does.
\<close>

theorem emails_from_raw_markup:
  assumes "get_page_content env url st = (Inr (Some page), st1)" and "page \<noteq> []"
  shows "\<forall>g. \<exists>answer st2.
           scrape_website (env\<lparr>soup_get_text := g\<rparr>) url prompt st
             = (Inr (Success url (extract_emails (set_order env) page) answer), st2)"
proof
  fix g
  have "get_page_content (env\<lparr>soup_get_text := g\<rparr>) url st = (Inr (Some page), st1)"
    using assms(1) by (simp add: get_page_content_soup)
  then show "\<exists>answer st2.
           scrape_website (env\<lparr>soup_get_text := g\<rparr>) url prompt st
             = (Inr (Success url (extract_emails (set_order env) page) answer), st2)"
    using assms(2)
    by (auto simp: scrape_website_def Let_def split: prod.splits analysis.splits)
qed

theorem emails_from_raw_markup_witness:
  "fst (get_page_content demo_env ''http://ok.example'' demo_state)
     = Inr (Some ''<a href=mailto:bob@x.org>write to us</a>'')
   \<and> soup_get_text demo_env ''<a href=mailto:bob@x.org>write to us</a>'' = ''write to us''
   \<and> extract_emails (set_order demo_env) ''write to us'' = []
   \<and> (\<exists>answer st2. scrape_website demo_env ''http://ok.example'' ''Describe'' demo_state
         = (Inr (Success ''http://ok.example'' [''bob@x.org''] answer), st2))"
proof -
  let ?r = "get_page_content demo_env ''http://ok.example'' demo_state"
  let ?page = "''<a href=mailto:bob@x.org>write to us</a>''"
  have f: "fst ?r = Inr (Some ?page)" by code_simp
  then have h: "?r = (Inr (Some ?page), snd ?r)" by (metis prod.collapse)
  have n: "?page \<noteq> []" by simp
  have t: "soup_get_text demo_env ?page = ''write to us''" by code_simp
  have e: "extract_emails (set_order demo_env) ''write to us'' = []" by code_simp
  have m: "extract_emails (set_order demo_env) ?page = [''bob@x.org'']" by code_simp
  have same: "demo_env\<lparr>soup_get_text := soup_get_text demo_env\<rparr> = demo_env" by simp
  from emails_from_raw_markup[OF h n, of "''Describe''"] 
  have "\<exists>answer st2. scrape_website (demo_env\<lparr>soup_get_text := soup_get_text demo_env\<rparr>)
      ''http://ok.example'' ''Describe'' demo_state
         = (Inr (Success ''http://ok.example'' (extract_emails (set_order demo_env) ?page) answer), st2)"
    by blast
  then have "\<exists>answer st2. scrape_website demo_env ''http://ok.example'' ''Describe'' demo_state
         = (Inr (Success ''http://ok.example'' [''bob@x.org''] answer), st2)"
    unfolding same m .
  with f t e show ?thesis by blast
qed

subsection \<open>The trace of a run\<close>

text \<open>
  Each method only adds events to the trace. The lemmas say which: one page request for
  \<^verbatim>\<open>get_page_content\<close>, one call of the model for \<^verbatim>\<open>analyze_with_ai\<close>, and for the loop
  of \<^verbatim>\<open>bulk_scrape\<close> one page request per URL and one row per good fetch.
\<close>

lemma page_fetches_append: "page_fetches (xs @ ys) = page_fetches xs @ page_fetches ys"
  by (induction xs rule: page_fetches.induct) auto

lemma answers_append: "answers (xs @ ys) = answers xs @ answers ys"
  by (induction xs rule: answers.induct) auto

lemma new_events_append: "trace st' = trace st @ evs \<Longrightarrow> new_events st st' = evs"
  by (simp add: new_events_def)

lemma do_sleep_trace:
  "do_sleep env d st = (res, st1) \<Longrightarrow> trace st1 = trace st @ [Slept d res]"
  by (cases "time_sleep env d (world st)") (auto simp: do_sleep_def emit_def)

lemma stamp_trace [simp]: "trace (stamp env st) = trace st"
  by (simp add: stamp_def)

lemma respect_rate_limit_trace:
  assumes "respect_rate_limit env st = (out, st1)"
  shows "\<exists>evs. trace st1 = trace st @ evs \<and> page_fetches evs = [] \<and> answers evs = []"
proof (cases "rate_limit (self st) = 0")
  case True
  with assms show ?thesis by (simp add: respect_rate_limit_def Let_def)
next
  case False
  let ?d = "1 / rate_limit (self st) - (time_time env (world st) - last_request_time (self st))"
  show ?thesis
  proof (cases "time_time env (world st) - last_request_time (self st) < 1 / rate_limit (self st)")
    case True
    obtain res st2 where sl: "do_sleep env ?d st = (res, st2)"
      by (cases "do_sleep env ?d st")
    have "trace st1 = trace st2"
      using assms False True sl by (cases res) (auto simp: respect_rate_limit_def Let_def)
    with do_sleep_trace[OF sl] have "trace st1 = trace st @ [Slept ?d res]" by simp
    then show ?thesis by simp
  next
    case no: False
    with False assms have "trace st1 = trace st @ []"
      by (auto simp: respect_rate_limit_def Let_def)
    then show ?thesis by (intro exI[of _ "[]"]) simp
  qed
qed

lemma get_page_content_trace:
  assumes "get_page_content env url st = (Inr body, st')"
  shows "\<exists>evs res. trace st' = trace st @ evs \<and> page_fetches evs = [(url, res)]
           \<and> answers evs = [] \<and> body = content_of res"
proof -
  from assms obtain u st1 where r: "respect_rate_limit env st = (Inr u, st1)"
    by (auto simp: get_page_content_def split: prod.splits sum.splits)
  from respect_rate_limit_trace[OF r] obtain evs1 where
    e1: "trace st1 = trace st @ evs1" "page_fetches evs1 = []" "answers evs1 = []" by blast
  obtain ua w where ua: "user_agent_random env (world st1) = (ua, w)"
    by (cases "user_agent_random env (world st1)")
  let ?req = "page_request (self st1) url ua"
  obtain res st2 where g: "do_get env ?req (st1\<lparr>world := w\<rparr>) = (res, st2)"
    by (cases "do_get env ?req (st1\<lparr>world := w\<rparr>)")
  then have t2: "trace st2 = trace st1 @ [HttpGet ?req res]"
    by (auto simp: do_get_def emit_def split: prod.splits)
  have u: "req_url ?req = url" by (simp add: page_request_def)
  show ?thesis
  proof (cases "content_of res")
    case None
    then obtain msg where "st' = py_print (fetch_error url msg) st2" and b: "body = None"
      using assms r ua g
      by (auto simp: get_page_content_def content_of_def split: sum.splits option.splits)
    then have "trace st' = trace st @ (evs1 @ [HttpGet ?req res, Printed (fetch_error url msg)])"
      using t2 e1(1) by (simp add: py_print_def emit_def)
    moreover have "page_fetches (evs1 @ [HttpGet ?req res, Printed (fetch_error url msg)]) = [(url, res)]"
      using e1(2) u by (simp add: page_fetches_append)
    moreover have "answers (evs1 @ [HttpGet ?req res, Printed (fetch_error url msg)]) = []"
      using e1(3) by (simp add: answers_append)
    ultimately show ?thesis using b None by metis
  next
    case (Some page)
    then have "st' = st2" and b: "body = Some page"
      using assms r ua g
      by (auto simp: get_page_content_def content_of_def split: sum.splits option.splits)
    then have "trace st' = trace st @ (evs1 @ [HttpGet ?req res])"
      using t2 e1(1) by simp
    moreover have "page_fetches (evs1 @ [HttpGet ?req res]) = [(url, res)]"
      using e1(2) u by (simp add: page_fetches_append)
    moreover have "answers (evs1 @ [HttpGet ?req res]) = []"
      using e1(3) by (simp add: answers_append)
    ultimately show ?thesis using b Some by metis
  qed
qed

lemma get_page_content_raises:
  "get_page_content env url st = (Inl e, st') \<Longrightarrow> respect_rate_limit env st = (Inl e, st')"
  by (auto simp: get_page_content_def split: prod.splits sum.splits option.splits)

lemma get_page_content_returns:
  assumes "respect_rate_limit env st = (Inr u, st1)"
  shows "\<exists>body st'. get_page_content env url st = (Inr body, st')"
proof -
  obtain out st' where g: "get_page_content env url st = (out, st')"
    by (cases "get_page_content env url st")
  show ?thesis
  proof (cases out)
    case (Inl e)
    with g get_page_content_raises[of env url st e st'] assms show ?thesis by simp
  next
    case (Inr body)
    with g show ?thesis by blast
  qed
qed

lemma analyze_with_ai_trace:
  assumes "analyze_with_ai env page prompt st = (a, st')"
  shows "\<exists>evs. trace st' = trace st @ evs \<and> page_fetches evs = []
           \<and> answers evs = [case a of AiOk answer \<Rightarrow> answer | AiError msg \<Rightarrow> None]"
proof -
  let ?msgs = "[system_message, user_message prompt page]"
  obtain res w where c: "chat_completions_create env ''gpt-3.5-turbo'' ?msgs (world st) = (res, w)"
    by (cases "chat_completions_create env ''gpt-3.5-turbo'' ?msgs (world st)")
  have "trace st' = trace st @ [ChatCreate ''gpt-3.5-turbo'' ?msgs res]
      \<and> answers [ChatCreate ''gpt-3.5-turbo'' ?msgs res]
          = [case a of AiOk answer \<Rightarrow> answer | AiError msg \<Rightarrow> None]"
    using assms c by (cases res) (auto simp: analyze_with_ai_def do_chat_def emit_def)
  then show ?thesis by (intro exI[of _ "[ChatCreate ''gpt-3.5-turbo'' ?msgs res]"]) simp
qed

lemma scrape_website_trace:
  assumes "scrape_website env url prompt st = (Inr r, st')"
  shows "\<exists>evs res. trace st' = trace st @ evs \<and> page_fetches evs = [(url, res)]
           \<and> (success r \<longleftrightarrow> fetch_ok res)
           \<and> (success r \<longrightarrow> row_url r = Some url)
           \<and> answers evs = (if success r then [row_answer r] else [])"
proof -
  from assms obtain body st1 where g: "get_page_content env url st = (Inr body, st1)"
    by (auto simp: scrape_website_def split: prod.splits sum.splits)
  from get_page_content_trace[OF g] obtain evs1 res where
    e1: "trace st1 = trace st @ evs1" "page_fetches evs1 = [(url, res)]" "answers evs1 = []"
      "body = content_of res" by blast
  show ?thesis
  proof (cases "fetch_ok res")
    case False
    then have "body = None \<or> body = Some []"
      using e1(4) by (auto simp: fetch_ok_def split: option.splits)
    with assms g have "r = fetch_failed" "st' = st1"
      by (auto simp: scrape_website_def)
    with e1 False show ?thesis by (auto simp: fetch_failed_def)
  next
    case True
    then obtain page where p: "body = Some page" "page \<noteq> []"
      using e1(4) by (auto simp: fetch_ok_def split: option.splits)
    obtain a st2 where a: "analyze_with_ai env (soup_get_text env page) prompt st1 = (a, st2)"
      by (cases "analyze_with_ai env (soup_get_text env page) prompt st1")
    from analyze_with_ai_trace[OF a] obtain evs2 where
      e2: "trace st2 = trace st1 @ evs2" "page_fetches evs2 = []"
        "answers evs2 = [case a of AiOk answer \<Rightarrow> answer | AiError msg \<Rightarrow> None]" by blast
    from assms g p a have r: "st' = st2"
      "r = Success url (extract_emails (set_order env) page)
             (case a of AiOk answer \<Rightarrow> answer | AiError msg \<Rightarrow> None)"
      by (auto simp: scrape_website_def Let_def split: analysis.splits)
    have "trace st' = trace st @ (evs1 @ evs2)" using r(1) e1(1) e2(1) by simp
    moreover have "page_fetches (evs1 @ evs2) = [(url, res)]"
      using e1(2) e2(2) by (simp add: page_fetches_append)
    moreover have "answers (evs1 @ evs2) = [row_answer r]"
      using e1(3) e2(3) r(2) by (simp add: answers_append)
    ultimately show ?thesis using True r(2) by (intro exI[of _ "evs1 @ evs2"] exI[of _ res]) simp
  qed
qed

lemma fetched_ok_append: "fetched_ok (xs @ ys) = fetched_ok xs @ fetched_ok ys"
  by (simp add: fetched_ok_def page_fetches_append)

lemma fetched_ok_single:
  "page_fetches evs = [(url, res)] \<Longrightarrow> fetched_ok evs = (if fetch_ok res then [url] else [])"
  by (simp add: fetched_ok_def)

lemma scrape_loop_step:
  assumes "scrape_loop env prompt (url # urls) acc st = (Inr tbl, st')"
  shows "\<exists>r st1. scrape_website env url prompt st = (Inr r, st1)
     \<and> scrape_loop env prompt urls (if success r then acc @ [r] else acc) st1 = (Inr tbl, st')"
proof -
  obtain out st1 where w: "scrape_website env url prompt st = (out, st1)"
    by (cases "scrape_website env url prompt st")
  show ?thesis
  proof (cases out)
    case (Inl e)
    with assms w show ?thesis by simp
  next
    case (Inr r)
    with assms w show ?thesis by simp
  qed
qed

lemma scrape_loop_trace:
  "scrape_loop env prompt urls acc st = (Inr tbl, st') \<Longrightarrow>
   \<exists>evs rows. trace st' = trace st @ evs \<and> tbl = acc @ rows
           \<and> map fst (page_fetches evs) = urls
           \<and> map row_url rows = map Some (fetched_ok evs)
           \<and> map row_answer rows = answers evs
           \<and> list_all success rows"
proof (induction urls arbitrary: acc st)
  case Nil
  then have "trace st' = trace st @ []" "tbl = acc @ []" by simp_all
  then show ?case by (intro exI[of _ "[]"]) (simp add: fetched_ok_def)
next
  case (Cons url urls)
  from scrape_loop_step[OF Cons.prems] obtain r st1 where
    w: "scrape_website env url prompt st = (Inr r, st1)"
    and l: "scrape_loop env prompt urls (if success r then acc @ [r] else acc) st1 = (Inr tbl, st')"
    by blast
  from scrape_website_trace[OF w] obtain evs1 res where
    e1: "trace st1 = trace st @ evs1" "page_fetches evs1 = [(url, res)]"
      "success r \<longleftrightarrow> fetch_ok res" "success r \<longrightarrow> row_url r = Some url"
      "answers evs1 = (if success r then [row_answer r] else [])" by blast
  from Cons.IH[OF l] obtain evs2 rows where
    e2: "trace st' = trace st1 @ evs2" "tbl = (if success r then acc @ [r] else acc) @ rows"
      "map fst (page_fetches evs2) = urls" "map row_url rows = map Some (fetched_ok evs2)"
      "map row_answer rows = answers evs2" "list_all success rows" by blast
  have f1: "fetched_ok evs1 = (if fetch_ok res then [url] else [])"
    using e1(2) by (rule fetched_ok_single)
  have tr: "trace st' = trace st @ (evs1 @ evs2)" using e1(1) e2(1) by simp
  have pf: "map fst (page_fetches (evs1 @ evs2)) = url # urls"
    using e1(2) e2(3) by (simp add: page_fetches_append)
  show ?case
  proof (cases "success r")
    case True
    then have ok: "fetch_ok res" and u: "row_url r = Some url" using e1(3,4) by simp_all
    have "tbl = acc @ (r # rows)" using e2(2) True by simp
    moreover have "map row_url (r # rows) = map Some (fetched_ok (evs1 @ evs2))"
      using u ok f1 e2(4) by (simp add: fetched_ok_append)
    moreover have "map row_answer (r # rows) = answers (evs1 @ evs2)"
      using e1(5) e2(5) True by (simp add: answers_append)
    moreover have "list_all success (r # rows)" using True e2(6) by simp
    ultimately show ?thesis using tr pf
      by (intro exI[of _ "evs1 @ evs2"] exI[of _ "r # rows"] conjI)
  next
    case False
    then have ok: "\<not> fetch_ok res" using e1(3) by simp
    have "tbl = acc @ rows" using e2(2) False by simp
    moreover have "map row_url rows = map Some (fetched_ok (evs1 @ evs2))"
      using ok f1 e2(4) by (simp add: fetched_ok_append)
    moreover have "map row_answer rows = answers (evs1 @ evs2)"
      using e1(5) e2(5) False by (simp add: answers_append)
    ultimately show ?thesis using tr pf e2(6)
      by (intro exI[of _ "evs1 @ evs2"] exI[of _ rows] conjI)
  qed
qed

lemma scrape_loop_append:
  "scrape_loop env prompt (us @ vs) acc st =
     (case scrape_loop env prompt us acc st of
        (Inl e, st1) \<Rightarrow> (Inl e, st1)
      | (Inr acc1, st1) \<Rightarrow> scrape_loop env prompt vs acc1 st1)"
proof (induction us arbitrary: acc st)
  case Nil
  show ?case by simp
next
  case (Cons u us)
  obtain out st1 where w: "scrape_website env u prompt st = (out, st1)"
    by (cases "scrape_website env u prompt st")
  show ?case
  proof (cases out)
    case (Inl e)
    with w show ?thesis by simp
  next
    case (Inr r)
    with w Cons.IH[of "if success r then acc @ [r] else acc" st1] show ?thesis by simp
  qed
qed

lemma do_makedirs_trace:
  "do_makedirs env dir st = (res, st') \<Longrightarrow> trace st' = trace st @ [MakeDirs dir res]"
  by (cases "os_makedirs env dir (world st)") (auto simp: do_makedirs_def emit_def)

lemma do_to_csv_trace:
  "do_to_csv env path df st = (res, st') \<Longrightarrow> trace st' = trace st @ [ToCsv path df res]"
  by (cases "to_csv env path df (world st)") (auto simp: do_to_csv_def emit_def)

lemma bulk_scrape_unfold:
  assumes "bulk_scrape env urls prompt st = (Inr tbl, st')"
  shows "\<exists>st1. scrape_loop env prompt urls [] st = (Inr tbl, st1)
           \<and> trace st' = trace st1 @ [MakeDirs (getenv_default env ''OUTPUT_DIR'' ''output'') None,
                                       ToCsv (csv_path env) tbl None]"
proof -
  let ?dir = "getenv_default env ''OUTPUT_DIR'' ''output''"
  obtain out st1 where l: "scrape_loop env prompt urls [] st = (out, st1)"
    by (cases "scrape_loop env prompt urls [] st")
  show ?thesis
  proof (cases out)
    case (Inl e)
    with assms l show ?thesis by (simp add: bulk_scrape_def)
  next
    case (Inr results)
    obtain mk st2 where m: "do_makedirs env ?dir st1 = (mk, st2)"
      by (cases "do_makedirs env ?dir st1")
    show ?thesis
    proof (cases mk)
      case (Some msg)
      with assms l Inr m show ?thesis by (simp add: bulk_scrape_def)
    next
      case None
      obtain wr st3 where c: "do_to_csv env (csv_path env) results st2 = (wr, st3)"
        by (cases "do_to_csv env (csv_path env) results st2")
      show ?thesis
      proof (cases wr)
        case (Some msg)
        with assms l Inr m None c show ?thesis by (simp add: bulk_scrape_def)
      next
        case wn: None
        with assms l Inr m None c have eq: "tbl = results" "st' = st3"
          by (simp_all add: bulk_scrape_def)
        have "trace st2 = trace st1 @ [MakeDirs ?dir None]"
          using do_makedirs_trace[OF m] None by simp
        moreover have "trace st3 = trace st2 @ [ToCsv (csv_path env) results None]"
          using do_to_csv_trace[OF c] wn by simp
        ultimately show ?thesis using l Inr eq by simp
      qed
    qed
  qed
qed

subsection \<open>The rate limiter\<close>







subsection \<open>The table\<close>

text \<open>
  Claim C9. A fetch that fails gives no exception and no row. Once the rate limiter has
  returned, \<^verbatim>\<open>get_page_content\<close> makes its one request and returns, with nothing when
  the request raised or had an error status; an exception leaves \<^verbatim>\<open>get_page_content\<close>
  only when the rate limiter raised it, before any request. When \<^verbatim>\<open>get_page_content\<close>
  returns nothing for a URL, the loop goes on with the URLs behind it and the results
  it had; and every row of the table that \<^verbatim>\<open>bulk_scrape\<close> returns is a success result.
\<close>

theorem failed_fetch_is_skipped:
  "(respect_rate_limit env st = (Inr u0, st0) \<longrightarrow>
      (\<exists>res st'. get_page_content env url st = (Inr (content_of res), st')
                 \<and> page_fetches (new_events st st') = [(url, res)]))
   \<and> (get_page_content env url st = (Inl e, st4) \<longrightarrow>
        respect_rate_limit env st = (Inl e, st4) \<and> page_fetches (new_events st st4) = [])
   \<and> (scrape_loop env prompt us acc st = (Inr acc1, st1)
        \<and> get_page_content env u st1 = (Inr None, st2)
        \<longrightarrow> scrape_loop env prompt (us @ u # vs) acc st = scrape_loop env prompt vs acc1 st2)
   \<and> (bulk_scrape env urls prompt st = (Inr tbl, st3) \<longrightarrow> list_all success tbl)"
proof (intro conjI impI)
  assume "respect_rate_limit env st = (Inr u0, st0)"
  from get_page_content_returns[OF this] obtain body st' where
    g: "get_page_content env url st = (Inr body, st')" by blast
  from get_page_content_trace[OF g] obtain evs res where
    e: "trace st' = trace st @ evs" "page_fetches evs = [(url, res)]" "body = content_of res"
    by blast
  have "new_events st st' = evs" using e(1) by (simp add: new_events_def)
  with g e(2,3) show "\<exists>res st'. get_page_content env url st = (Inr (content_of res), st')
                 \<and> page_fetches (new_events st st') = [(url, res)]"
    by blast
next
  assume "get_page_content env url st = (Inl e, st4)"
  then show "respect_rate_limit env st = (Inl e, st4)" by (rule get_page_content_raises)
next
  assume "get_page_content env url st = (Inl e, st4)"
  then have "respect_rate_limit env st = (Inl e, st4)" by (rule get_page_content_raises)
  from respect_rate_limit_trace[OF this] obtain evs where
    "trace st4 = trace st @ evs" "page_fetches evs = []" by blast
  then show "page_fetches (new_events st st4) = []" by (simp add: new_events_def)
next
  assume a: "scrape_loop env prompt us acc st = (Inr acc1, st1)
        \<and> get_page_content env u st1 = (Inr None, st2)"
  then have "scrape_website env u prompt st1 = (Inr fetch_failed, st2)"
    by (simp add: scrape_website_def)
  then have "scrape_loop env prompt (u # vs) acc1 st1 = scrape_loop env prompt vs acc1 st2"
    by (simp add: fetch_failed_def)
  with a show "scrape_loop env prompt (us @ u # vs) acc st = scrape_loop env prompt vs acc1 st2"
    by (simp add: scrape_loop_append)
next
  assume "bulk_scrape env urls prompt st = (Inr tbl, st3)"
  from bulk_scrape_unfold[OF this] obtain st1 where
    "scrape_loop env prompt urls [] st = (Inr tbl, st1)" by blast
  from scrape_loop_trace[OF this] show "list_all success tbl" by auto
qed

theorem failed_fetch_is_skipped_witness:
  "fst (respect_rate_limit demo_env demo_state) = Inr ()
   \<and> fst (get_page_content demo_env ''http://down.example'' demo_state) = Inr None
   \<and> map fst (page_fetches (new_events demo_state
        (snd (get_page_content demo_env ''http://down.example'' demo_state))))
       = [''http://down.example'']
   \<and> fst (get_page_content demo_env ''http://down.example'' slow_state)
       = Inl (OverflowError ''timestamp too large to convert to C _PyTime_t'')
   \<and> page_fetches (new_events slow_state
        (snd (get_page_content demo_env ''http://down.example'' slow_state))) = []
   \<and> scrape_loop demo_env ''Describe'' [''http://down.example'', ''http://ok.example''] [] demo_state
       = scrape_loop demo_env ''Describe'' [''http://ok.example''] []
           (snd (get_page_content demo_env ''http://down.example'' demo_state))
   \<and> fst (bulk_scrape demo_env [''http://down.example'', ''http://ok.example''] ''Describe'' demo_state)
       = Inr [Success ''http://ok.example'' [''bob@x.org''] (Some ''A small company.'')]
   \<and> list_all success [Success ''http://ok.example'' [''bob@x.org''] (Some ''A small company.'')]"
proof -
  let ?g = "get_page_content demo_env ''http://down.example'' demo_state"
  let ?s = "get_page_content demo_env ''http://down.example'' slow_state"
  let ?b = "bulk_scrape demo_env [''http://down.example'', ''http://ok.example''] ''Describe'' demo_state"
  let ?tbl = "[Success ''http://ok.example'' [''bob@x.org''] (Some ''A small company.'')]"
  let ?err = "OverflowError ''timestamp too large to convert to C _PyTime_t''"
  have rf: "fst (respect_rate_limit demo_env demo_state) = Inr ()" by code_simp
  then have r: "respect_rate_limit demo_env demo_state
      = (Inr (), snd (respect_rate_limit demo_env demo_state))" by (metis prod.collapse)
  have f: "fst ?g = Inr None" by code_simp
  then have g: "?g = (Inr None, snd ?g)" by (metis prod.collapse)
  have sf: "fst ?s = Inl ?err" by code_simp
  then have sl: "?s = (Inl ?err, snd ?s)" by (metis prod.collapse)
  have l: "scrape_loop demo_env ''Describe'' [] [] demo_state = (Inr [], demo_state)" by simp
  have bf: "fst ?b = Inr ?tbl" by code_simp
  then have b: "?b = (Inr ?tbl, snd ?b)" by (metis prod.collapse)
  note inst = failed_fetch_is_skipped[where env = demo_env and st = demo_state and prompt = "''Describe''"
      and url = "''http://down.example''" and ?u0.0 = "()"
      and ?st0.0 = "snd (respect_rate_limit demo_env demo_state)"
      and us = "[]" and acc = "[]" and ?acc1.0 = "[]" and ?st1.0 = demo_state
      and u = "''http://down.example''" and ?st2.0 = "snd ?g" and vs = "[''http://ok.example'']"
      and urls = "[''http://down.example'', ''http://ok.example'']" and tbl = ?tbl and ?st3.0 = "snd ?b"]
  note slow = failed_fetch_is_skipped[where env = demo_env and st = slow_state
      and url = "''http://down.example''" and e = ?err and ?st4.0 = "snd ?s"]
  from inst r obtain res st' where
    "?g = (Inr (content_of res), st')"
    "page_fetches (new_events demo_state st') = [(''http://down.example'', res)]" by blast
  then have p: "map fst (page_fetches (new_events demo_state (snd ?g))) = [''http://down.example'']"
    by simp
  from slow sl have q: "page_fetches (new_events slow_state (snd ?s)) = []" by blast
  from inst l g have
    "scrape_loop demo_env ''Describe'' ([] @ ''http://down.example'' # [''http://ok.example'']) [] demo_state
       = scrape_loop demo_env ''Describe'' [''http://ok.example''] [] (snd ?g)" by blast
  moreover from inst b have "list_all success ?tbl" by blast
  ultimately show ?thesis using rf f p sf q bf by simp
qed

text \<open>
  Claim C1, as the code has it. When \<^verbatim>\<open>bulk_scrape\<close> returns, every URL of the list was
  requested once, in order; the rows of the table are, in order, the URLs whose fetch
  gave a body that is not empty; the analysis of each row is the answer of the model,
  or nothing when the analysis failed; and the last event of the run is the writing of
  the CSV file with the returned table.
\<close>

theorem bulk_scrape_table:
  assumes "bulk_scrape env urls prompt st = (Inr tbl, st')"
  shows "map fst (page_fetches (new_events st st')) = urls
       \<and> map row_url tbl = map Some (fetched_ok (new_events st st'))
       \<and> map row_answer tbl = answers (new_events st st')
       \<and> (\<exists>evs dir. new_events st st' = evs @ [MakeDirs dir None, ToCsv (csv_path env) tbl None])"
proof -
  let ?tail = "[MakeDirs (getenv_default env ''OUTPUT_DIR'' ''output'') None,
                ToCsv (csv_path env) tbl None]"
  from bulk_scrape_unfold[OF assms] obtain st1 where
    l: "scrape_loop env prompt urls [] st = (Inr tbl, st1)"
    and t: "trace st' = trace st1 @ ?tail" by blast
  from scrape_loop_trace[OF l] obtain evs rows where
    e: "trace st1 = trace st @ evs" "tbl = [] @ rows" "map fst (page_fetches evs) = urls"
      "map row_url rows = map Some (fetched_ok evs)" "map row_answer rows = answers evs"
    by blast
  have n: "new_events st st' = evs @ ?tail"
    using t e(1) by (simp add: new_events_def)
  have a: "map fst (page_fetches (evs @ ?tail)) = urls"
    using e(3) by (simp add: page_fetches_append)
  have b: "map row_url tbl = map Some (fetched_ok (evs @ ?tail))"
    using e(2,4) by (simp add: fetched_ok_append) (simp add: fetched_ok_def)
  have c: "map row_answer tbl = answers (evs @ ?tail)"
    using e(2,5) by (simp add: answers_append)
  show ?thesis unfolding n using a b c by blast
qed

theorem bulk_scrape_table_witness:
  "fst (bulk_scrape demo_env
         [''http://gone.example'', ''http://ok.example'', ''http://empty.example''] ''FAIL'' demo_state)
     = Inr [Success ''http://ok.example'' [''bob@x.org''] None]
   \<and> fetched_ok (new_events demo_state (snd (bulk_scrape demo_env
         [''http://gone.example'', ''http://ok.example'', ''http://empty.example''] ''FAIL'' demo_state)))
     = [''http://ok.example'']
   \<and> answers (new_events demo_state (snd (bulk_scrape demo_env
         [''http://gone.example'', ''http://ok.example'', ''http://empty.example''] ''FAIL'' demo_state)))
     = [None]"
proof -
  let ?urls = "[''http://gone.example'', ''http://ok.example'', ''http://empty.example'']"
  let ?r = "bulk_scrape demo_env ?urls ''FAIL'' demo_state"
  let ?tbl = "[Success ''http://ok.example'' [''bob@x.org''] None]"
  have f: "fst ?r = Inr ?tbl" by code_simp
  then have h: "?r = (Inr ?tbl, snd ?r)" by (metis prod.collapse)
  from bulk_scrape_table[OF h] have
    "map row_url ?tbl = map Some (fetched_ok (new_events demo_state (snd ?r)))"
    "map row_answer ?tbl = answers (new_events demo_state (snd ?r))" by blast+
  then have "fetched_ok (new_events demo_state (snd ?r)) = [''http://ok.example'']"
    "answers (new_events demo_state (snd ?r)) = [None]"
    by (auto simp: map_eq_Cons_conv)
  with f show ?thesis by blast
qed

text \<open>
  The claim as the specification words it (a row only when the analysis succeeded as
  well) fails: a page whose analysis fails is still a row of the file, with no analysis.
\<close>

theorem bulk_scrape_failed_analysis_counterexample:
  "fst (bulk_scrape demo_env [''http://ok.example''] ''FAIL'' demo_state)
     = Inr [Success ''http://ok.example'' [''bob@x.org''] None]
   \<and> failed_chats (trace (snd (bulk_scrape demo_env [''http://ok.example''] ''FAIL'' demo_state)))
     = [''Rate limit reached'']
   \<and> last (trace (snd (bulk_scrape demo_env [''http://ok.example''] ''FAIL'' demo_state)))
     = ToCsv ''output/scraped_data.csv'' [Success ''http://ok.example'' [''bob@x.org''] None] None"
  by code_simp

end
